theory Spec2Isabelle
  imports Main "HOL-Library.Word"
begin

section \<open>Python strings\<close>

text \<open>
  A Python \<open>str\<close> is modelled as a \<open>string\<close>, one \<open>char\<close> per code point, for the
  code points below 256. The functions of this section are the \<open>str\<close> methods the
  repository calls, on that range.
\<close>

definition nl :: char where
  "nl = CHR 0x0A"

definition sp :: char where
  "sp = CHR '' ''"

text \<open>
  \<open>str.isspace\<close> of one character: the characters \<open>str.strip()\<close> and
  \<open>str.split()\<close> (both called without an argument) treat as whitespace. Below 256 these
  are \<open>0x09..0x0D\<close>, \<open>0x1C..0x20\<close>, \<open>0x85\<close> and \<open>0xA0\<close>.
\<close>

definition is_space :: "char \<Rightarrow> bool" where
  "is_space c =
     (let n = (of_char c :: nat) in
      (9 \<le> n \<and> n \<le> 13) \<or> (28 \<le> n \<and> n \<le> 32) \<or> n = 133 \<or> n = 160)"

text \<open>\<open>s.strip()\<close>\<close>

definition strip :: "string \<Rightarrow> string" where
  "strip s = rev (dropWhile is_space (rev (dropWhile is_space s)))"

text \<open>\<open>s.split("\n")\<close>: never the empty list; \<open>"".split("\n") == [""]\<close>.\<close>

fun split_nl :: "string \<Rightarrow> string list" where
  "split_nl [] = [[]]"
| "split_nl (c # cs) =
     (if c = nl then [] # split_nl cs
      else (case split_nl cs of
              [] \<Rightarrow> [[c]]
            | l # ls \<Rightarrow> (c # l) # ls))"

text \<open>\<open>sep.join(xs)\<close>\<close>

fun join :: "string \<Rightarrow> string list \<Rightarrow> string" where
  "join sep [] = []"
| "join sep [x] = x"
| "join sep (x # y # ys) = x @ sep @ join sep (y # ys)"

text \<open>
  \<open>s.split()\<close>: the maximal runs of non-whitespace characters, in order. \<open>cur\<close> is the
  run being read.
\<close>

fun split_ws_from :: "string \<Rightarrow> string \<Rightarrow> string list" where
  "split_ws_from cur [] = (if cur = [] then [] else [cur])"
| "split_ws_from cur (c # cs) =
     (if is_space c
      then (if cur = [] then split_ws_from [] cs else cur # split_ws_from [] cs)
      else split_ws_from (cur @ [c]) cs)"

definition split_ws :: "string \<Rightarrow> string list" where
  "split_ws s = split_ws_from [] s"

text \<open>\<open>s.replace(old, new)\<close> for a one-character \<open>old\<close>.\<close>

definition replace_char :: "char \<Rightarrow> string \<Rightarrow> string \<Rightarrow> string" where
  "replace_char old new s = concat (map (\<lambda>c. if c = old then new else [c]) s)"

text \<open>\<open>"  " in line\<close> and \<open>line.replace("  ", " ")\<close> (matches taken left to right, not overlapping).\<close>

fun has_double_space :: "string \<Rightarrow> bool" where
  "has_double_space (a # b # cs) = ((a = sp \<and> b = sp) \<or> has_double_space (b # cs))"
| "has_double_space _ = False"

fun replace_double_space :: "string \<Rightarrow> string" where
  "replace_double_space (a # b # cs) =
     (if a = sp \<and> b = sp then sp # replace_double_space cs
      else a # replace_double_space (b # cs))"
| "replace_double_space cs = cs"

section \<open>Display escaping (handlers/photo\_handler.py)\<close>

text \<open>
  \<open>re.sub(r'<[^>]+>', '', text)\<close>: scanning from the left, a \<open><\<close> followed by one or
  more characters other than \<open>>\<close> and then a \<open>>\<close> is deleted up to and including that
  \<open>>\<close>, and the scan goes on behind it; any other character is kept. The class
  \<open>[^>]\<close> also matches a line break and \<open><\<close>.
\<close>

function sub_tags :: "string \<Rightarrow> string" where
  "sub_tags [] = []"
| "sub_tags (c # cs) =
     (if c = CHR ''<'' \<and> takeWhile (\<lambda>x. x \<noteq> CHR ''>'') cs \<noteq> []
         \<and> dropWhile (\<lambda>x. x \<noteq> CHR ''>'') cs \<noteq> []
      then sub_tags (tl (dropWhile (\<lambda>x. x \<noteq> CHR ''>'') cs))
      else c # sub_tags cs)"
  by pat_completeness auto
termination
proof (relation "measure length")
  fix c :: char and cs :: string
  have "length (dropWhile (\<lambda>x. x \<noteq> CHR ''>'') cs) \<le> length cs"
    by (rule length_dropWhile_le)
  then show "(tl (dropWhile (\<lambda>x. x \<noteq> CHR ''>'') cs), c # cs) \<in> measure length"
    by simp
qed simp_all

text \<open>\<open>html.escape(s)\<close> with its default \<open>quote=True\<close>: five replacements, \<open>&\<close> first.\<close>

definition html_escape :: "string \<Rightarrow> string" where
  "html_escape s =
     (let s = replace_char (CHR ''&'') ''&amp;'' s;
          s = replace_char (CHR ''<'') ''&lt;'' s;
          s = replace_char (CHR ''>'') ''&gt;'' s;
          s = replace_char (CHR 0x22) ''&quot;'' s;
          s = replace_char (CHR 0x27) ''&#x27;'' s
      in s)"

definition escape_html_for_display :: "string \<Rightarrow> string" where
  "escape_html_for_display text = html_escape (sub_tags text)"

section \<open>Text layout engine (services/image\_generator.py)\<close>

text \<open>The attributes set by \<open>ImageGenerator.__init__\<close>.\<close>

definition width :: int where "width = 1200"
definition min_height :: int where "min_height = 400"
definition padding :: int where "padding = 60"
definition line_spacing :: int where "line_spacing = 20"
definition font_size :: int where "font_size = 48"

datatype colour = RGB nat nat nat | RGBA nat nat nat nat

definition background_colors :: "colour list" where
  "background_colors = [RGB 250 250 255, RGB 255 250 250, RGB 250 255 250, RGB 255 255 250]"

definition text_color :: colour where
  "text_color = RGB 30 30 30"

type_synonym bytes = "8 word list"

text \<open>
  What the layout engine takes from Pillow and \<open>random\<close>: the width
  \<open>bbox[2] - bbox[0]\<close> that \<open>draw.textbbox((0, 0), s, font=font)\<close> measures for a line,
  whether the background bytes open, convert and resize without an exception, and the
  index \<open>random.choice\<close> picks in the palette.
\<close>

record pillow =
  text_width :: "string \<Rightarrow> int"
  opens :: "bytes \<Rightarrow> bool"
  choice :: nat

text \<open>
  The inner loop of \<open>_clean_text\<close>:
  \<open>while "  " in line: line = line.replace("  ", " ")\<close>.
\<close>

function collapse_spaces :: "string \<Rightarrow> string" where
  "collapse_spaces line =
     (if has_double_space line then collapse_spaces (replace_double_space line) else line)"
  by pat_completeness auto
termination
proof (relation "measure length")
  fix line :: string
  assume d: "has_double_space line"
  have le: "length (replace_double_space l) \<le> length l" for l
    by (induction l rule: replace_double_space.induct) auto
  have "has_double_space l \<Longrightarrow> length (replace_double_space l) < length l" for l
  proof (induction l rule: replace_double_space.induct)
    case (1 a b cs)
    show ?case
    proof (cases "a = sp \<and> b = sp")
      case True
      then show ?thesis using le [of cs] by simp
    next
      case False
      then show ?thesis using 1 by auto
    qed
  qed simp_all
  with d show "(replace_double_space line, line) \<in> measure length" by simp
qed simp

declare collapse_spaces.simps [simp del]

text \<open>The \<open>for line in lines\<close> loop of \<open>_clean_text\<close>; \<open>cleaned\<close> is \<open>cleaned_lines\<close>.\<close>

fun clean_loop :: "string list \<Rightarrow> string list \<Rightarrow> string list" where
  "clean_loop cleaned [] = cleaned"
| "clean_loop cleaned (line # lines) =
     (if line \<noteq> [] then clean_loop (cleaned @ [collapse_spaces line]) lines
      else clean_loop cleaned lines)"

definition cleaned_lines :: "string \<Rightarrow> string list" where
  "cleaned_lines text = clean_loop [] (map strip (split_nl text))"

definition clean_text :: "string \<Rightarrow> string" where
  "clean_text text = join [nl] (cleaned_lines text)"

text \<open>
  The \<open>for word in words\<close> loop of \<open>_wrap_text\<close>, on the pair of \<open>result_lines\<close> and
  \<open>current_line\<close>.
\<close>

fun wrap_words ::
  "pillow \<Rightarrow> int \<Rightarrow> string list \<Rightarrow> string list \<Rightarrow> string list \<Rightarrow> string list \<times> string list"
where
  "wrap_words pil max_width result_lines current_line [] = (result_lines, current_line)"
| "wrap_words pil max_width result_lines current_line (word # words) =
     (let test_line = (if current_line \<noteq> [] then join [sp] (current_line @ [word]) else word)
      in if text_width pil test_line \<le> max_width
         then wrap_words pil max_width result_lines (current_line @ [word]) words
         else wrap_words pil max_width
                (if current_line \<noteq> [] then result_lines @ [join [sp] current_line]
                 else result_lines)
                [word] words)"

text \<open>The \<open>for original_line in original_lines\<close> loop of \<open>_wrap_text\<close>.\<close>

fun wrap_lines :: "pillow \<Rightarrow> int \<Rightarrow> string list \<Rightarrow> string list \<Rightarrow> string list" where
  "wrap_lines pil max_width result_lines [] = result_lines"
| "wrap_lines pil max_width result_lines (original_line # original_lines) =
     (if strip original_line = []
      then wrap_lines pil max_width (result_lines @ [[]]) original_lines
      else (case wrap_words pil max_width result_lines [] (split_ws original_line) of
              (result_lines', current_line) \<Rightarrow>
                wrap_lines pil max_width
                  (if current_line \<noteq> [] then result_lines' @ [join [sp] current_line]
                   else result_lines')
                  original_lines))"

definition wrap_text :: "pillow \<Rightarrow> string \<Rightarrow> int \<Rightarrow> string list" where
  "wrap_text pil text max_width =
     (let result_lines = wrap_lines pil max_width [] (split_nl text)
      in if result_lines \<noteq> [] then result_lines else [text])"

text \<open>
  The visual lines one source line gives when the body of the outer loop of \<open>_wrap_text\<close>
  runs on it alone, from an empty \<open>result_lines\<close>.
\<close>

definition wrap_paragraph :: "pillow \<Rightarrow> int \<Rightarrow> string \<Rightarrow> string list" where
  "wrap_paragraph pil max_width original_line = wrap_lines pil max_width [] [original_line]"

text \<open>
  The image \<open>create_image_with_text\<close> builds, before it is encoded as PNG: its size,
  its background and the \<open>draw.text\<close> calls made on it, in order.
\<close>

datatype background = Resized bytes | Solid colour

record draw_call =
  at_x :: int
  at_y :: int
  drawn :: string
  fill :: colour

record image =
  img_width :: int
  img_height :: int
  img_background :: background
  img_draws :: "draw_call list"

text \<open>The drawing loop: a blank line only moves \<open>y_position\<close> down.\<close>

fun draw_lines :: "int \<Rightarrow> int \<Rightarrow> int \<Rightarrow> string list \<Rightarrow> draw_call list" where
  "draw_lines x_position y_position line_height [] = []"
| "draw_lines x_position y_position line_height (line # lines) =
     (if strip line = [] then draw_lines x_position (y_position + line_height) line_height lines
      else \<lparr>at_x = x_position + 2, at_y = y_position + 2, drawn = line,
             fill = RGBA 200 200 200 100\<rparr>
         # \<lparr>at_x = x_position, at_y = y_position, drawn = line, fill = text_color\<rparr>
         # draw_lines x_position (y_position + line_height) line_height lines)"

definition pick_colour :: "pillow \<Rightarrow> colour" where
  "pick_colour pil = background_colors ! (choice pil mod length background_colors)"

text \<open>
  \<open>create_image_with_text\<close>. \<open>None\<close> is the early return on an empty or
  whitespace-only text. Pillow is taken not to raise outside the background branch, whose
  own \<open>except\<close> falls back to a solid colour.
\<close>

definition create_image_with_text :: "pillow \<Rightarrow> string \<Rightarrow> bytes option \<Rightarrow> image option" where
  "create_image_with_text pil text background_image_bytes =
     (if text = [] \<or> strip text = [] then None
      else
        let cleaned_text = clean_text text;
            lines = wrap_text pil cleaned_text (width - 2 * padding);
            line_height = font_size + line_spacing;
            total_height = int (length lines) * line_height + 2 * padding + 40;
            bg = (case background_image_bytes of
                    None \<Rightarrow> Solid (pick_colour pil)
                  | Some b \<Rightarrow>
                      if b = [] then Solid (pick_colour pil)
                      else if opens pil b then Resized b
                      else Solid (pick_colour pil))
        in Some \<lparr>img_width = width, img_height = total_height, img_background = bg,
                  img_draws = draw_lines padding (padding + 30) line_height lines\<rparr>)"

section \<open>Configuration (config.py)\<close>

definition POLLING_INTERVAL :: nat where "POLLING_INTERVAL = 2"
definition MAX_POLLS :: nat where "MAX_POLLS = 300"

section \<open>OCR client (services/datalab\_service.py)\<close>

text \<open>
  The JSON body of a status response, as far as \<open>_poll_for_result\<close> reads it:
  \<open>data.get("status")\<close>, the truth value of \<open>data.get("success")\<close>, and the
  \<open>"markdown"\<close> entry (\<open>None\<close> when the key is missing).
\<close>

record job_json =
  job_status :: "string option"
  job_success :: bool
  job_markdown :: "string option"

text \<open>
  What one \<open>session.get\<close> of the polling loop can do: answer with an HTTP status code and
  a body, raise an \<open>aiohttp.ClientError\<close>, or raise another exception (which the loop
  does not catch).
\<close>

datatype poll_reply = Reply nat job_json | RaisesClientError | RaisesOther

text \<open>What the loop does, in order: the GET of attempt \<open>i\<close>, and each \<open>asyncio.sleep\<close>.\<close>

datatype poll_event = Get nat | Sleep nat

datatype exn = Exception

text \<open>
  The loop \<open>for i in range(MAX_POLLS)\<close>, from attempt \<open>i\<close> with \<open>n\<close> attempts left.
  \<open>server i\<close> is what the GET of attempt \<open>i\<close> does. The result is \<open>Inr\<close> of the value
  returned (\<open>None\<close> or the text) or \<open>Inl\<close> of the exception that leaves the loop.
\<close>

fun poll_loop ::
  "(nat \<Rightarrow> poll_reply) \<Rightarrow> nat \<Rightarrow> nat \<Rightarrow> poll_event list
     \<Rightarrow> (exn + string option) \<times> poll_event list"
where
  "poll_loop server i 0 trace = (Inr None, trace)"
| "poll_loop server i (Suc n) trace =
     (case server i of
        RaisesClientError \<Rightarrow>
          poll_loop server (Suc i) n (trace @ [Get i, Sleep POLLING_INTERVAL])
      | RaisesOther \<Rightarrow> (Inl Exception, trace @ [Get i])
      | Reply code data \<Rightarrow>
          if code \<noteq> 200
          then poll_loop server (Suc i) n (trace @ [Get i, Sleep POLLING_INTERVAL])
          else if job_status data = Some ''complete''
          then (if job_success data
                then (Inr (Some (case job_markdown data of None \<Rightarrow> [] | Some m \<Rightarrow> m)),
                      trace @ [Get i])
                else (Inr None, trace @ [Get i]))
          else if job_status data = Some ''failed''
          then (Inr None, trace @ [Get i])
          else poll_loop server (Suc i) n (trace @ [Get i, Sleep POLLING_INTERVAL]))"

definition poll_for_result :: "(nat \<Rightarrow> poll_reply) \<Rightarrow> (exn + string option) \<times> poll_event list" where
  "poll_for_result server = poll_loop server 0 MAX_POLLS []"

text \<open>
  What the POST of \<open>_submit_image\<close> can do. A reply carries the HTTP status code, the truth
  value of \<open>result.get("success")\<close> and \<open>result.get("request_id")\<close>.
\<close>

datatype submit_reply = Submitted nat bool "string option" | SubmitClientError | SubmitOther

definition submit_image :: "submit_reply \<Rightarrow> exn + string option" where
  "submit_image reply =
     (case reply of
        SubmitClientError \<Rightarrow> Inr None
      | SubmitOther \<Rightarrow> Inl Exception
      | Submitted code success request_id \<Rightarrow>
          if code \<noteq> 200 then Inr None
          else if \<not> success then Inr None
          else Inr request_id)"

text \<open>The remote job API as one upload sees it.\<close>

record datalab_api =
  on_submit :: submit_reply
  on_poll :: "nat \<Rightarrow> poll_reply"

text \<open>\<open>extract_text_from_image\<close>: every exception becomes \<open>None\<close>.\<close>

definition extract_text_from_image :: "datalab_api \<Rightarrow> string option" where
  "extract_text_from_image api =
     (case submit_image (on_submit api) of
        Inl e \<Rightarrow> None
      | Inr request_id \<Rightarrow>
          if request_id = None \<or> request_id = Some [] then None
          else (case fst (poll_for_result (on_poll api)) of
                  Inl e \<Rightarrow> None
                | Inr result \<Rightarrow> result))"

text \<open>
  The replies that let the loop go on to its next attempt, and the terminal ones (a 200
  answer whose status is \<open>complete\<close> or \<open>failed\<close>).
\<close>

fun transient :: "poll_reply \<Rightarrow> bool" where
  "transient RaisesClientError = True"
| "transient RaisesOther = False"
| "transient (Reply code data) =
     (code \<noteq> 200 \<or> (job_status data \<noteq> Some ''complete'' \<and> job_status data \<noteq> Some ''failed''))"

fun terminal :: "poll_reply \<Rightarrow> bool" where
  "terminal (Reply code data) =
     (code = 200 \<and> (job_status data = Some ''complete'' \<or> job_status data = Some ''failed''))"
| "terminal _ = False"

section \<open>OCR provider selector (services/ocr\_service.py)\<close>









section \<open>Interaction state machine (handlers/states.py, handlers/photo\_handler.py)\<close>

datatype fsm_state = waiting_for_confirmation | editing_text | waiting_for_background

text \<open>
  The \<open>FSMContext\<close> of one user: \<open>get_state()\<close> (\<open>None\<close> when idle) and the one
  entry of its data that the handlers use. \<open>state.clear()\<close> resets both.
\<close>

record session =
  current_state :: "fsm_state option"
  extracted_text :: "string option"

definition cleared :: session where
  "cleared = \<lparr>current_state = None, extracted_text = None\<rparr>"

text \<open>The process: one user's session and the global \<open>user_backgrounds\<close> dictionary.\<close>

record world =
  session :: session
  user_backgrounds :: "nat \<rightharpoonup> bytes"

text \<open>
  The fixed texts the handlers send are named, not spelled out; a text view carries the
  escaped display copy and, when the text was cut, the pair (shown, total) of its notice.
\<close>

datatype view = ExtractedText | EditedText | EditingText

datatype notice =
    ReceivedPhoto | ReceivedDocument bool | FileTooLarge int | FinishCurrentOperation
  | ExtractingText bool | ExtractionFailed bool
  | TextView view string "(nat \<times> nat) option"
  | TextNotFound | ImageCreated | Cancelled | CancelledToast | EmptyEditedText
  | CreatingImage | ImageCreationFailed | ProcessingError
  | BackgroundSaved | BackgroundError | SendAnImage

datatype filename = PhotoJpg nat | Named string

text \<open>
  What a handler does to the outside, in order: messages sent, edited and deleted, the
  answer to a callback (with \<open>show_alert\<close>), the download of the uploaded file, the call
  of the OCR client, the call of the layout engine with its two arguments, and the photo
  sent back.
\<close>

datatype effect =
    Answer notice
  | EditText notice
  | Delete
  | CallbackAnswer "notice option" bool
  | Download
  | ExtractTextFromImage bytes filename bool
  | CreateImageWithText string "bytes option"
  | AnswerPhoto image

text \<open>
  What the handlers use from outside this module: Pillow, the answers of the remote job
  API to an upload (its bytes and \<open>is_pdf\<close>), and the truth value of the comparison
  \<open>str(current_state) == str(BackgroundUpload.waiting_for_background)\<close> when the stored
  state is that state. Sending, editing and deleting messages is taken to succeed.
\<close>

record services =
  pil :: pillow
  datalab :: "bytes \<Rightarrow> bool \<Rightarrow> datalab_api"
  str_of_state_equal :: bool

definition max_text_length :: nat where
  "max_text_length = 3000"

text \<open>The display copy built in four handlers: cut, escaped, with the notice when cut.\<close>

definition text_view :: "view \<Rightarrow> string \<Rightarrow> notice" where
  "text_view v text =
     (let display_text = take max_text_length text;
          is_truncated = length text > max_text_length
      in TextView v (escape_html_for_display display_text)
           (if is_truncated then Some (max_text_length, length text) else None))"


text \<open>\<open>create_image_from_text\<close>; \<open>author\<close> is \<open>message.from_user.id\<close>.\<close>

definition create_image_from_text :: "services \<Rightarrow> string \<Rightarrow> nat \<Rightarrow> world \<Rightarrow> effect list" where
  "create_image_from_text env text author w =
     (let background_image_bytes = user_backgrounds w author
      in [Answer CreatingImage, CreateImageWithText text background_image_bytes] @
         (case create_image_with_text (pil env) text background_image_bytes of
            None \<Rightarrow> [EditText ImageCreationFailed]
          | Some result_image \<Rightarrow> [AnswerPhoto result_image, Delete]))"








text \<open>
  A callback query: its \<open>data\<close> and the author of the message that carries the buttons
  (\<open>callback.message.from_user.id\<close>).
\<close>

record callback_query =
  callback_data :: string
  message_author :: nat

definition stored_text :: "world \<Rightarrow> string" where
  "stored_text w = (case extracted_text (session w) of None \<Rightarrow> [] | Some t \<Rightarrow> t)"

definition confirm_text_handler :: "services \<Rightarrow> callback_query \<Rightarrow> world \<Rightarrow> world \<times> effect list" where
  "confirm_text_handler env callback w =
     (let text = stored_text w
      in if text = [] then (w\<lparr>session := cleared\<rparr>, [CallbackAnswer (Some TextNotFound) True])
         else (w\<lparr>session := cleared\<rparr>,
               [Delete] @ create_image_from_text env text (message_author callback) w @
               [CallbackAnswer (Some ImageCreated) False]))"

definition edit_text_handler :: "world \<Rightarrow> world \<times> effect list" where
  "edit_text_handler w =
     (let text = stored_text w
      in if text = [] then (w\<lparr>session := cleared\<rparr>, [CallbackAnswer (Some TextNotFound) True])
         else (w\<lparr>session := (session w)\<lparr>current_state := Some editing_text\<rparr>\<rparr>,
               [EditText (text_view EditingText text), CallbackAnswer None False]))"

definition back_to_confirmation_handler :: "world \<Rightarrow> world \<times> effect list" where
  "back_to_confirmation_handler w =
     (w\<lparr>session := (session w)\<lparr>current_state := Some waiting_for_confirmation\<rparr>\<rparr>,
      [EditText (text_view ExtractedText (stored_text w)), CallbackAnswer None False])"

definition cancel_text_handler :: "world \<Rightarrow> world \<times> effect list" where
  "cancel_text_handler w =
     (w\<lparr>session := cleared\<rparr>, [EditText Cancelled, CallbackAnswer (Some CancelledToast) False])"

text \<open>\<open>process_edited_text\<close>, on \<open>message.text\<close>.\<close>

definition process_edited_text :: "string \<Rightarrow> world \<Rightarrow> world \<times> effect list" where
  "process_edited_text message_text w =
     (let edited_text = strip message_text
      in if edited_text = [] then (w, [Answer EmptyEditedText])
         else (w\<lparr>session := (session w)\<lparr>extracted_text := Some edited_text,
                                         current_state := Some waiting_for_confirmation\<rparr>\<rparr>,
               [Answer (text_view EditedText edited_text)]))"










subsection \<open>Routing\<close>

text \<open>
  The router of \<open>photo_handler\<close> offers an update to its handlers in the order of their
  registration and runs the first whose filters pass; \<open>None\<close> is an update that no
  handler of the router takes. The routers \<open>bot.py\<close> includes before it are taken to
  pass on callback queries, photos and documents.
\<close>

definition route_callback_query :: "services \<Rightarrow> callback_query \<Rightarrow> world \<Rightarrow> (world \<times> effect list) option" where
  "route_callback_query env callback w =
     (let st = current_state (session w); d = callback_data callback
      in if d = ''confirm_text'' \<and> st = Some waiting_for_confirmation
         then Some (confirm_text_handler env callback w)
         else if d = ''edit_text'' \<and> st = Some waiting_for_confirmation
         then Some (edit_text_handler w)
         else if d = ''back_to_confirmation'' \<and> st = Some editing_text
         then Some (back_to_confirmation_handler w)
         else if d = ''cancel_text'' then Some (cancel_text_handler w)
         else None)"






fun layout_calls :: "effect list \<Rightarrow> (string \<times> bytes option) list" where
  "layout_calls [] = []"
| "layout_calls (CreateImageWithText t b # fx) = (t, b) # layout_calls fx"
| "layout_calls (e # fx) = layout_calls fx"

fun displayed :: "effect list \<Rightarrow> string list" where
  "displayed [] = []"
| "displayed (Answer (TextView v t n) # fx) = t # displayed fx"
| "displayed (EditText (TextView v t n) # fx) = t # displayed fx"
| "displayed (e # fx) = displayed fx"

fun reports_error :: "(world \<times> effect list) option \<Rightarrow> bool" where
  "reports_error None = False"
| "reports_error (Some (w, fx)) = list_ex (\<lambda>e. e = CallbackAnswer (Some TextNotFound) True) fx"

section \<open>Example inputs\<close>

text \<open>A font in which every character is 25 pixels wide; backgrounds that always open.\<close>

definition fixed_pitch :: pillow where
  "fixed_pitch = \<lparr>text_width = (\<lambda>s. 25 * int (length s)), opens = (\<lambda>b. True), choice = 0\<rparr>"

text \<open>A remote API that accepts every upload and answers the first poll with a result.\<close>

definition milk_api :: "bytes \<Rightarrow> bool \<Rightarrow> datalab_api" where
  "milk_api b is_pdf =
     \<lparr>on_submit = Submitted 200 True (Some ''r1''),
      on_poll = (\<lambda>i. Reply 200 \<lparr>job_status = Some ''complete'', job_success = True,
                                  job_markdown = Some ''Milk''\<rparr>)\<rparr>"

definition example_services :: services where
  "example_services = \<lparr>pil = fixed_pitch, datalab = milk_api, str_of_state_equal = False\<rparr>"


text \<open>A user who is editing the text \<open>Milk\<close>.\<close>

definition editing_world :: world where
  "editing_world =
     \<lparr>session = \<lparr>current_state = Some editing_text, extracted_text = Some ''Milk''\<rparr>,
      user_backgrounds = Map.empty\<rparr>"

definition confirm_click :: callback_query where
  "confirm_click = \<lparr>callback_data = ''confirm_text'', message_author = 7\<rparr>"



text \<open>A job that is still being processed at every poll.\<close>

definition always_processing :: "nat \<Rightarrow> poll_reply" where
  "always_processing i =
     Reply 200 \<lparr>job_status = Some ''processing'', job_success = False, job_markdown = None\<rparr>"



text \<open>A text of 3001 characters, and a shopping list of three lines.\<close>

definition long_text :: string where
  "long_text = replicate 3001 (CHR ''a'')"


text \<open>A text whose second line is empty.\<close>

definition blank_line_text :: string where
  "blank_line_text = ''a'' @ [nl] @ [nl] @ ''b''"

section \<open>Invariant of the provider selector\<close>


section \<open>Paragraphs\<close>

text \<open>
  The paragraphs of an input text: its lines, split at the line breaks, that are not
  blank. They are the lines that the normalisation keeps.
\<close>

definition paragraphs :: "string \<Rightarrow> string list" where
  "paragraphs text = filter (\<lambda>l. strip l \<noteq> []) (split_nl text)"

text \<open>A text of two paragraphs around a blank line, the first too long for 250 pixels.\<close>

definition two_paragraphs :: string where
  "two_paragraphs = ''Milk Eggs  Bread Butter'' @ [nl] @ [nl] @ '' Tea ''"

section \<open>Properties of the display escaping\<close>





section \<open>Properties of the interaction state machine\<close>

text \<open>
  C1 (as amended). For every session whose state is not \<open>waiting_for_confirmation\<close>, a
  callback with the data \<open>confirm_text\<close> is taken by no handler: nothing is sent to the
  user, and neither the state nor the stored text changes.
\<close>

theorem confirm_elsewhere_unhandled:
  "current_state (session w) \<noteq> Some waiting_for_confirmation \<Longrightarrow>
   callback_data callback = ''confirm_text'' \<Longrightarrow>
   route_callback_query env callback w = None"
  by (simp add: route_callback_query_def Let_def)

theorem confirm_elsewhere_unhandled_witness:
  "route_callback_query example_services confirm_click editing_world = None"
  using confirm_elsewhere_unhandled [of editing_world confirm_click example_services]
  by (simp add: editing_world_def confirm_click_def)

text \<open>
  C1 as stated fails: a user who is editing the text and presses the confirm button of an
  older message gets no error report.
\<close>

theorem confirm_elsewhere_no_report:
  "current_state (session editing_world) \<noteq> Some waiting_for_confirmation \<and>
   callback_data confirm_click = ''confirm_text'' \<and>
   \<not> reports_error (route_callback_query example_services confirm_click editing_world)"
  by (simp add: route_callback_query_def Let_def editing_world_def confirm_click_def)





lemma layout_calls_create:
  "layout_calls (create_image_from_text env text author w) = [(text, user_backgrounds w author)]"
  by (simp add: create_image_from_text_def Let_def split: option.splits)

lemma layout_calls_append: "layout_calls (xs @ ys) = layout_calls xs @ layout_calls ys"
  by (induction xs rule: layout_calls.induct) simp_all

lemma confirm_layout_calls:
  "extracted_text (session w) = Some E \<Longrightarrow> E \<noteq> [] \<Longrightarrow>
   layout_calls (snd (confirm_text_handler env callback w)) = [(E, user_backgrounds w (message_author callback))]"
  by (simp add: confirm_text_handler_def stored_text_def Let_def layout_calls_append layout_calls_create)

text \<open>
  C2. When the user confirms, the layout engine is called once, with exactly the text
  stored in the session, whatever its length. For an edited text the stored text is the
  whole stripped message, while the view sent to the user shows the escaped first 3000
  characters of it: the cut reaches the displayed message only.
\<close>

theorem confirm_renders_stored_text:
  "(current_state (session w) = Some waiting_for_confirmation \<and>
    extracted_text (session w) = Some E \<and> E \<noteq> [] \<and> callback_data callback = ''confirm_text'' \<longrightarrow>
      route_callback_query env callback w = Some (confirm_text_handler env callback w) \<and>
      layout_calls (snd (confirm_text_handler env callback w)) =
        [(E, user_backgrounds w (message_author callback))]) \<and>
   (strip message_text \<noteq> [] \<and> callback_data callback = ''confirm_text'' \<and>
    w' = fst (process_edited_text message_text w) \<longrightarrow>
      extracted_text (session w') = Some (strip message_text) \<and>
      displayed (snd (process_edited_text message_text w)) =
        [escape_html_for_display (take 3000 (strip message_text))] \<and>
      route_callback_query env callback w' = Some (confirm_text_handler env callback w') \<and>
      layout_calls (snd (confirm_text_handler env callback w')) =
        [(strip message_text, user_backgrounds w (message_author callback))])"
proof (intro conjI impI)
  assume a: "strip message_text \<noteq> [] \<and> callback_data callback = ''confirm_text'' \<and>
    w' = fst (process_edited_text message_text w)"
  then have w': "w' = w\<lparr>session := (session w)\<lparr>extracted_text := Some (strip message_text),
      current_state := Some waiting_for_confirmation\<rparr>\<rparr>"
    by (simp add: process_edited_text_def Let_def)
  show "extracted_text (session w') = Some (strip message_text)"
    by (simp add: w')
  show "displayed (snd (process_edited_text message_text w)) =
        [escape_html_for_display (take 3000 (strip message_text))]"
    using a by (simp add: process_edited_text_def Let_def text_view_def max_text_length_def)
  from a have cb: "callback_data callback = ''confirm_text''" and ne: "strip message_text \<noteq> []"
    by simp_all
  show "route_callback_query env callback w' = Some (confirm_text_handler env callback w')"
    using cb by (simp add: route_callback_query_def Let_def w')
  have "extracted_text (session w') = Some (strip message_text)" "user_backgrounds w' = user_backgrounds w"
    by (simp_all add: w')
  with ne confirm_layout_calls [of w' "strip message_text" env callback]
  show "layout_calls (snd (confirm_text_handler env callback w')) =
        [(strip message_text, user_backgrounds w (message_author callback))]"
    by simp
qed (simp_all add: route_callback_query_def Let_def confirm_layout_calls)

lemma strip_long: "strip long_text = long_text"
  by (simp add: strip_def long_text_def is_space_def)

theorem confirm_renders_stored_text_witness:
  "length long_text = 3001 \<and>
   layout_calls (snd (confirm_text_handler example_services confirm_click
        (fst (process_edited_text long_text editing_world)))) = [(long_text, None)]"
proof -
  have a: "strip long_text \<noteq> [] \<and> callback_data confirm_click = ''confirm_text''"
    by (simp add: strip_long) (simp add: long_text_def confirm_click_def)
  show ?thesis
    using confirm_renders_stored_text [where message_text = long_text and callback = confirm_click
        and w = editing_world and env = example_services
        and w' = "fst (process_edited_text long_text editing_world)"] a
    by (simp add: strip_long) (simp add: long_text_def editing_world_def)
qed

section \<open>Properties of the layout engine\<close>





section \<open>Properties of the OCR client\<close>

lemma poll_loop_transient:
  "transient (server i) \<Longrightarrow>
   poll_loop server i (Suc n) tr = poll_loop server (Suc i) n (tr @ [Get i, Sleep POLLING_INTERVAL])"
  by (cases "server i") auto

lemma poll_loop_all_transient:
  "(\<forall>k<n. transient (server (i + k))) \<Longrightarrow>
   poll_loop server i n tr =
     (Inr None, tr @ concat (map (\<lambda>j. [Get j, Sleep POLLING_INTERVAL]) [i..<i + n]))"
proof (induction n arbitrary: i tr)
  case 0
  then show ?case by simp
next
  case (Suc n)
  from Suc.prems have t: "transient (server i)" by force
  from Suc.prems have "\<forall>k<n. transient (server (Suc i + k))" by auto
  from Suc.IH [OF this] t show ?case
    by (simp add: poll_loop_transient upt_conv_Cons del: poll_loop.simps upt_Suc)
qed

lemma poll_loop_no_terminal:
  "(\<forall>k<n. \<not> terminal (server (i + k))) \<Longrightarrow>
   fst (poll_loop server i n tr) = Inr None \<or> fst (poll_loop server i n tr) = Inl Exception"
proof (induction n arbitrary: i tr)
  case 0
  then show ?case by simp
next
  case (Suc n)
  from Suc.prems have t: "\<not> terminal (server i)" by force
  from Suc.prems have "\<forall>k<n. \<not> terminal (server (Suc i + k))" by auto
  from Suc.IH [OF this] t show ?case
    by (cases "server i") auto
qed

text \<open>
  C4. The budget is \<open>MAX_POLLS\<close> = 300 attempts and the pause \<open>POLLING_INTERVAL\<close> = 2
  seconds. A reply that is a non-200 answer, an \<open>aiohttp.ClientError\<close> or a 200 answer
  whose status is neither \<open>complete\<close> nor \<open>failed\<close> uses up exactly one attempt and is
  followed by one sleep. When all 300 replies are of that kind the loop has made 300
  requests and 300 sleeps and returns \<open>None\<close>; and whenever none of the 300 replies is
  terminal, the OCR client returns \<open>None\<close>.
\<close>

theorem poll_budget:
  "MAX_POLLS = 300 \<and> POLLING_INTERVAL = 2 \<and>
   (transient (server i) \<longrightarrow>
      poll_loop server i (Suc n) tr =
        poll_loop server (Suc i) n (tr @ [Get i, Sleep POLLING_INTERVAL])) \<and>
   ((\<forall>k<MAX_POLLS. transient (server k)) \<longrightarrow>
      poll_for_result server =
        (Inr None, concat (map (\<lambda>j. [Get j, Sleep POLLING_INTERVAL]) [0..<MAX_POLLS]))) \<and>
   ((\<forall>k<MAX_POLLS. \<not> terminal (on_poll api k)) \<longrightarrow> extract_text_from_image api = None)"
proof (intro conjI impI)
  show "MAX_POLLS = 300" "POLLING_INTERVAL = 2"
    by (simp_all add: MAX_POLLS_def POLLING_INTERVAL_def)
  assume "transient (server i)"
  then show "poll_loop server i (Suc n) tr =
        poll_loop server (Suc i) n (tr @ [Get i, Sleep POLLING_INTERVAL])"
    by (rule poll_loop_transient)
next
  assume "\<forall>k<MAX_POLLS. transient (server k)"
  then show "poll_for_result server =
        (Inr None, concat (map (\<lambda>j. [Get j, Sleep POLLING_INTERVAL]) [0..<MAX_POLLS]))"
    using poll_loop_all_transient [of MAX_POLLS server 0 "[]"]
    by (simp add: poll_for_result_def)
next
  assume "\<forall>k<MAX_POLLS. \<not> terminal (on_poll api k)"
  then have "fst (poll_for_result (on_poll api)) = Inr None \<or>
             fst (poll_for_result (on_poll api)) = Inl Exception"
    using poll_loop_no_terminal [of MAX_POLLS "on_poll api" 0 "[]"]
    by (simp add: poll_for_result_def)
  then show "extract_text_from_image api = None"
    by (auto simp: extract_text_from_image_def split: sum.splits)
qed

theorem poll_budget_witness:
  "fst (poll_for_result always_processing) = Inr None \<and>
   length (snd (poll_for_result always_processing)) = 600 \<and>
   extract_text_from_image
     \<lparr>on_submit = Submitted 200 True (Some ''r1''), on_poll = always_processing\<rparr> = None"
proof -
  have a: "\<forall>k<MAX_POLLS. transient (always_processing k)"
    by (simp add: always_processing_def)
  have b: "\<forall>k<MAX_POLLS. \<not> terminal (on_poll
      \<lparr>on_submit = Submitted 200 True (Some ''r1''), on_poll = always_processing\<rparr> k)"
    by (simp add: always_processing_def)
  show ?thesis
    using poll_budget [of always_processing 0 0 "[]"
        "\<lparr>on_submit = Submitted 200 True (Some ''r1''), on_poll = always_processing\<rparr>"] a b
    by (simp add: length_concat comp_def sum_list_triv)
qed

section \<open>Properties of the provider selector\<close>



section \<open>Properties of the normalisation\<close>

lemma clean_loop_eq:
  "clean_loop acc ls = acc @ map collapse_spaces (filter (\<lambda>l. l \<noteq> []) ls)"
  by (induction ls arbitrary: acc) auto

lemma cleaned_lines_eq:
  "cleaned_lines text = map collapse_spaces (filter (\<lambda>l. l \<noteq> []) (map strip (split_nl text)))"
  by (simp add: cleaned_lines_def clean_loop_eq)

lemma replace_double_space_nonempty: "l \<noteq> [] \<Longrightarrow> replace_double_space l \<noteq> []"
  by (cases l rule: replace_double_space.cases) auto

lemma collapse_nonempty: "line \<noteq> [] \<Longrightarrow> collapse_spaces line \<noteq> []"
proof (induction line rule: collapse_spaces.induct)
  case (1 line)
  show ?case
    using 1 replace_double_space_nonempty [of line] by (subst collapse_spaces.simps) auto
qed

lemma cleaned_lines_nonempty: "[] \<notin> set (cleaned_lines text)"
  by (auto simp: cleaned_lines_eq dest: collapse_nonempty [rotated])

lemma split_nl_not_Nil: "split_nl s \<noteq> []"
  by (induction s) (auto split: list.splits)

lemma split_nl_no_nl: "l \<in> set (split_nl s) \<Longrightarrow> nl \<notin> set l"
proof (induction s arbitrary: l)
  case Nil
  then show ?case by simp
next
  case (Cons c cs)
  then show ?case
    by (cases "split_nl cs") (auto split: if_splits)
qed

lemma set_strip: "set (strip s) \<subseteq> set s"
proof -
  have "set (dropWhile is_space (rev (dropWhile is_space s))) \<subseteq> set (rev (dropWhile is_space s))"
    by (meson set_dropWhileD subsetI)
  also have "\<dots> \<subseteq> set s"
    by (auto dest: set_dropWhileD)
  finally show ?thesis by (simp add: strip_def)
qed

lemma set_replace_double_space: "set (replace_double_space l) \<subseteq> set l"
  by (induction l rule: replace_double_space.induct) auto

lemma set_collapse_spaces: "set (collapse_spaces l) \<subseteq> set l"
proof (induction l rule: collapse_spaces.induct)
  case (1 line)
  show ?case
    using 1 set_replace_double_space [of line] by (subst collapse_spaces.simps) auto
qed

lemma cleaned_lines_no_nl: "l \<in> set (cleaned_lines text) \<Longrightarrow> nl \<notin> set l"
  using set_collapse_spaces set_strip split_nl_no_nl
  by (fastforce simp: cleaned_lines_eq)

lemma split_nl_line: "nl \<notin> set x \<Longrightarrow> split_nl x = [x]"
  by (induction x) auto

lemma split_nl_append: "nl \<notin> set x \<Longrightarrow> split_nl (x @ nl # rest) = x # split_nl rest"
  by (induction x) auto

lemma split_nl_join:
  "ls \<noteq> [] \<Longrightarrow> (\<And>l. l \<in> set ls \<Longrightarrow> nl \<notin> set l) \<Longrightarrow> split_nl (join [nl] ls) = ls"
proof (induction "[nl]" ls rule: join.induct)
  case 1
  then show ?case by simp
next
  case (2 x)
  then show ?case by (simp add: split_nl_line)
next
  case (3 x y ys)
  then show ?case by (simp add: split_nl_append)
qed

lemma split_nl_clean_text:
  "cleaned_lines text \<noteq> [] \<Longrightarrow> split_nl (clean_text text) = cleaned_lines text"
  unfolding clean_text_def
  by (rule split_nl_join) (auto dest: cleaned_lines_no_nl)

text \<open>
  C3 (as amended). For every input text, \<open>_clean_text\<close> keeps exactly the lines that are
  not empty after trimming, each with its runs of spaces collapsed: a line that is empty
  after trimming is dropped whether or not it was empty before, so the normalised text has
  no blank line.
\<close>

theorem clean_text_drops_blank_lines:
  "cleaned_lines text =
     map collapse_spaces (filter (\<lambda>l. l \<noteq> []) (map strip (split_nl text))) \<and>
   [] \<notin> set (cleaned_lines text) \<and>
   (cleaned_lines text \<noteq> [] \<longrightarrow>
      split_nl (clean_text text) = cleaned_lines text \<and> [] \<notin> set (split_nl (clean_text text)))"
  using cleaned_lines_eq [of "text"] cleaned_lines_nonempty [of "text"] split_nl_clean_text [of "text"]
  by simp

lemma blank_line_cleaned: "cleaned_lines blank_line_text = [''a'', ''b'']"
  by code_simp

theorem clean_text_drops_blank_lines_witness:
  "split_nl (clean_text blank_line_text) = [''a'', ''b'']"
  using clean_text_drops_blank_lines [of blank_line_text]
  by (simp add: blank_line_cleaned)

text \<open>
  C3 as stated fails: the second line of \<open>a\n\nb\<close> is empty before trimming, and the
  normalised text is \<open>a\nb\<close>, with no marker left for it.
\<close>

theorem blank_line_not_preserved:
  "split_nl blank_line_text = [''a'', [], ''b''] \<and>
   clean_text blank_line_text = ''a'' @ [nl] @ ''b''"
  by code_simp

section \<open>Properties of the word wrapping\<close>

lemma is_space_sp: "is_space sp"
  by (simp add: is_space_def sp_def)

lemma split_ws_from_proper:
  "w \<in> set (split_ws_from cur s) \<Longrightarrow> (\<forall>c\<in>set cur. \<not> is_space c) \<Longrightarrow>
   w \<noteq> [] \<and> (\<forall>c\<in>set w. \<not> is_space c)"
proof (induction s arbitrary: cur)
  case Nil
  then show ?case by (auto split: if_splits)
next
  case (Cons c cs)
  show ?case
  proof (cases "is_space c")
    case True
    with Cons.prems Cons.IH [of "[]"] show ?thesis
      by (auto split: if_splits)
  next
    case False
    with Cons.prems Cons.IH [of "cur @ [c]"] show ?thesis
      by auto
  qed
qed

lemma split_ws_proper:
  "w \<in> set (split_ws s) \<Longrightarrow> w \<noteq> [] \<and> (\<forall>c\<in>set w. \<not> is_space c)"
  using split_ws_from_proper [of w "[]" s] by (simp add: split_ws_def)

lemma split_ws_from_word:
  "\<forall>c\<in>set w. \<not> is_space c \<Longrightarrow> split_ws_from cur (w @ rest) = split_ws_from (cur @ w) rest"
  by (induction w arbitrary: cur) auto

lemma split_ws_join:
  "\<forall>w\<in>set ws. w \<noteq> [] \<and> (\<forall>c\<in>set w. \<not> is_space c) \<Longrightarrow> split_ws (join [sp] ws) = ws"
proof (induction "[sp]" ws rule: join.induct)
  case 1
  then show ?case by (simp add: split_ws_def)
next
  case (2 x)
  then show ?case
    using split_ws_from_word [of x "[]" "[]"] by (simp add: split_ws_def)
next
  case (3 x y ys)
  have x: "x \<noteq> []" "\<forall>c\<in>set x. \<not> is_space c"
    using 3(2) by simp_all
  have "\<forall>w\<in>set (y # ys). w \<noteq> [] \<and> (\<forall>c\<in>set w. \<not> is_space c)"
    using 3(2) by simp
  then have "split_ws (join [sp] (y # ys)) = y # ys"
    by (rule 3(1))
  then show ?case
    using x split_ws_from_word [of x "[]" "sp # join [sp] (y # ys)"]
    by (simp add: split_ws_def is_space_sp)
qed

lemma wrap_words_keeps_words:
  "(\<And>x. x \<in> set cur \<union> set ws \<Longrightarrow> x \<noteq> [] \<and> (\<forall>c\<in>set x. \<not> is_space c)) \<Longrightarrow>
   concat (map split_ws (fst (wrap_words p mw res cur ws))) @ snd (wrap_words p mw res cur ws) =
     concat (map split_ws res) @ cur @ ws"
proof (induction ws arbitrary: res cur)
  case Nil
  then show ?case by simp
next
  case (Cons word ws)
  let ?test = "if cur \<noteq> [] then join [sp] (cur @ [word]) else word"
  show ?case
  proof (cases "text_width p ?test \<le> mw")
    case True
    have "concat (map split_ws (fst (wrap_words p mw res (cur @ [word]) ws))) @
          snd (wrap_words p mw res (cur @ [word]) ws) =
          concat (map split_ws res) @ (cur @ [word]) @ ws"
      by (rule Cons.IH) (use Cons.prems in auto)
    with True show ?thesis by (simp add: Let_def)
  next
    case False
    let ?res = "if cur \<noteq> [] then res @ [join [sp] cur] else res"
    have j: "split_ws (join [sp] cur) = cur"
      by (rule split_ws_join) (use Cons.prems in blast)
    have "concat (map split_ws (fst (wrap_words p mw ?res [word] ws))) @
          snd (wrap_words p mw ?res [word] ws) =
          concat (map split_ws ?res) @ [word] @ ws"
      by (rule Cons.IH) (use Cons.prems in auto)
    with False j show ?thesis by (simp add: Let_def)
  qed
qed

lemma wrap_words_last_line:
  "cur \<noteq> [] \<or> ws \<noteq> [] \<Longrightarrow> snd (wrap_words p mw res cur ws) \<noteq> []"
  by (induction ws arbitrary: res cur) (auto simp: Let_def)

lemma wrap_words_result:
  "wrap_words p mw res cur ws =
     (res @ fst (wrap_words p mw [] cur ws), snd (wrap_words p mw [] cur ws))"
proof (induction ws arbitrary: res cur)
  case Nil
  then show ?case by simp
next
  case (Cons word ws)
  let ?test = "if cur \<noteq> [] then join [sp] (cur @ [word]) else word"
  show ?case
  proof (cases "text_width p ?test \<le> mw")
    case True
    with Cons.IH [of res "cur @ [word]"] show ?thesis by (simp add: Let_def)
  next
    case False
    show ?thesis
    proof (cases "cur = []")
      case True
      with False Cons.IH [of res "[word]"] show ?thesis by (simp add: Let_def)
    next
      case c: False
      with False Cons.IH [of "res @ [join [sp] cur]" "[word]"]
        Cons.IH [of "[join [sp] cur]" "[word]"]
      show ?thesis by (simp add: Let_def)
    qed
  qed
qed

lemma strip_Nil_iff: "strip l = [] \<longleftrightarrow> (\<forall>c\<in>set l. is_space c)"
proof
  assume "strip l = []"
  then have a: "\<forall>x\<in>set (dropWhile is_space l). is_space x"
    by (simp add: strip_def dropWhile_eq_Nil_conv)
  have "dropWhile is_space l = []"
  proof (rule ccontr)
    assume n: "dropWhile is_space l \<noteq> []"
    then have "\<not> is_space (hd (dropWhile is_space l))"
      by (rule hd_dropWhile)
    with a n show False by auto
  qed
  then show "\<forall>c\<in>set l. is_space c"
    by (simp add: dropWhile_eq_Nil_conv)
next
  assume "\<forall>c\<in>set l. is_space c"
  then have d: "dropWhile is_space l = []"
    by (simp add: dropWhile_eq_Nil_conv)
  show "strip l = []"
    unfolding strip_def d by simp
qed

lemma split_ws_from_spaces:
  "\<forall>c\<in>set l. is_space c \<Longrightarrow> split_ws_from cur l = (if cur = [] then [] else [cur])"
  by (induction l arbitrary: cur) auto

lemma split_ws_blank: "strip l = [] \<Longrightarrow> split_ws l = []"
  by (simp add: strip_Nil_iff split_ws_def split_ws_from_spaces)

lemma split_ws_from_not_Nil:
  "cur \<noteq> [] \<or> (\<exists>c\<in>set l. \<not> is_space c) \<Longrightarrow> split_ws_from cur l \<noteq> []"
  by (induction l arbitrary: cur) auto

lemma split_ws_not_blank: "strip l \<noteq> [] \<Longrightarrow> split_ws l \<noteq> []"
  using split_ws_from_not_Nil [of "[]" l] by (auto simp: strip_Nil_iff split_ws_def)

lemma wrap_paragraph_eq:
  "wrap_paragraph p mw l =
     (if strip l = [] then [[]]
      else fst (wrap_words p mw [] [] (split_ws l)) @
           [join [sp] (snd (wrap_words p mw [] [] (split_ws l)))])"
proof (cases "strip l = []")
  case True
  then show ?thesis by (simp add: wrap_paragraph_def)
next
  case False
  then have "snd (wrap_words p mw [] [] (split_ws l)) \<noteq> []"
    using wrap_words_last_line [of "[]" "split_ws l" p mw "[]"] split_ws_not_blank by blast
  with False show ?thesis
    by (simp add: wrap_paragraph_def split_beta)
qed

lemma wrap_paragraph_not_Nil: "wrap_paragraph p mw l \<noteq> []"
  by (simp add: wrap_paragraph_eq)

lemma wrap_paragraph_words: "concat (map split_ws (wrap_paragraph p mw l)) = split_ws l"
proof (cases "strip l = []")
  case True
  then show ?thesis
    by (simp add: wrap_paragraph_eq split_ws_blank) (simp add: split_ws_def)
next
  case False
  let ?r = "wrap_words p mw [] [] (split_ws l)"
  have w: "\<And>x. x \<in> set [] \<union> set (split_ws l) \<Longrightarrow> x \<noteq> [] \<and> (\<forall>c\<in>set x. \<not> is_space c)"
    using split_ws_proper by simp
  have k: "concat (map split_ws (fst ?r)) @ snd ?r = split_ws l"
    using wrap_words_keeps_words [OF w, of "[]" "split_ws l" p mw "[]"] by simp
  have "\<forall>x\<in>set (snd ?r). x \<noteq> [] \<and> (\<forall>c\<in>set x. \<not> is_space c)"
  proof
    fix x assume "x \<in> set (snd ?r)"
    then have "x \<in> set (concat (map split_ws (fst ?r)) @ snd ?r)" by simp
    then have "x \<in> set (split_ws l)" by (simp only: k)
    then show "x \<noteq> [] \<and> (\<forall>c\<in>set x. \<not> is_space c)" by (rule split_ws_proper)
  qed
  then have "split_ws (join [sp] (snd ?r)) = snd ?r"
    by (rule split_ws_join)
  with False k show ?thesis
    by (simp add: wrap_paragraph_eq)
qed

lemma wrap_lines_blocks:
  "wrap_lines p mw res ls = res @ concat (map (wrap_paragraph p mw) ls)"
proof (induction ls arbitrary: res)
  case Nil
  then show ?case by simp
next
  case (Cons l ls)
  show ?case
  proof (cases "strip l = []")
    case True
    then show ?thesis by (simp add: Cons.IH wrap_paragraph_eq)
  next
    case False
    then have n: "snd (wrap_words p mw [] [] (split_ws l)) \<noteq> []"
      using wrap_words_last_line [of "[]" "split_ws l" p mw "[]"] split_ws_not_blank by blast
    have "snd (wrap_words p mw res [] (split_ws l)) = snd (wrap_words p mw [] [] (split_ws l))"
      "fst (wrap_words p mw res [] (split_ws l)) = res @ fst (wrap_words p mw [] [] (split_ws l))"
      using wrap_words_result [of p mw res "[]" "split_ws l"] by simp_all
    with False n show ?thesis
      by (simp add: Cons.IH wrap_paragraph_eq split_beta)
  qed
qed

lemma split_ws_from_trailing:
  "\<forall>c\<in>set ys. is_space c \<Longrightarrow> split_ws_from cur (xs @ ys) = split_ws_from cur xs"
  by (induction xs arbitrary: cur) (auto simp: split_ws_from_spaces)

lemma split_ws_from_leading:
  "cur = [] \<Longrightarrow> split_ws_from cur (dropWhile is_space l) = split_ws_from cur l"
  by (induction l) auto

lemma split_ws_strip: "split_ws (strip l) = split_ws l"
proof -
  let ?d = "dropWhile is_space l"
  have "?d = rev (dropWhile is_space (rev ?d)) @ rev (takeWhile is_space (rev ?d))"
    by (metis rev_append rev_rev_ident takeWhile_dropWhile_id)
  moreover have "\<forall>c\<in>set (rev (takeWhile is_space (rev ?d))). is_space c"
    by (auto dest: set_takeWhileD)
  ultimately have "split_ws_from [] ?d = split_ws_from [] (rev (dropWhile is_space (rev ?d)))"
    using split_ws_from_trailing [of "rev (takeWhile is_space (rev ?d))" "[]"
        "rev (dropWhile is_space (rev ?d))"] by simp
  then show ?thesis
    by (simp add: split_ws_def strip_def split_ws_from_leading)
qed

lemma split_ws_from_replace:
  "split_ws_from cur (replace_double_space l) = split_ws_from cur l"
proof (induction l arbitrary: cur rule: replace_double_space.induct)
  case (1 a b cs)
  show ?case
  proof (cases "a = sp \<and> b = sp")
    case True
    with 1(1) [of "[]"] show ?thesis by (simp add: is_space_sp)
  next
    case False
    with 1(2) show ?thesis by auto
  qed
qed simp_all

lemma split_ws_collapse: "split_ws (collapse_spaces l) = split_ws l"
proof (induction l rule: collapse_spaces.induct)
  case (1 line)
  show ?case
    using 1 by (subst collapse_spaces.simps) (auto simp: split_ws_def split_ws_from_replace)
qed

lemma wrap_text_blocks:
  "wrap_text p text mw = concat (map (wrap_paragraph p mw) (split_nl text))"
proof -
  obtain l ls where "split_nl text = l # ls"
    using split_nl_not_Nil [of "text"] by (cases "split_nl text") auto
  then have "concat (map (wrap_paragraph p mw) (split_nl text)) \<noteq> []"
    by (simp add: wrap_paragraph_not_Nil)
  then show ?thesis
    by (simp add: wrap_text_def wrap_lines_blocks Let_def)
qed

lemma cleaned_lines_paragraphs:
  "cleaned_lines text = map (\<lambda>l. collapse_spaces (strip l)) (paragraphs text)"
  by (simp add: cleaned_lines_eq paragraphs_def filter_map comp_def)

lemma words_of_blocks:
  "concat (map split_ws (concat (map (wrap_paragraph p mw) ls))) = concat (map split_ws ls)"
  by (induction ls) (simp_all add: wrap_paragraph_words)

text \<open>
  C7. The visual lines \<open>_wrap_text\<close> returns are the lines of its first source line,
  followed by those of the second, and so on: each source line is wrapped on its own.
  After the normalisation the source lines are the paragraphs of the input, so the output
  is one block of visual lines per paragraph, in order, and the words on the lines of a
  block are the words of its paragraph: no visual line holds words of two paragraphs.
\<close>

theorem paragraphs_wrapped_apart:
  "wrap_text p text mw = concat (map (wrap_paragraph p mw) (split_nl text)) \<and>
   (paragraphs text \<noteq> [] \<longrightarrow>
      wrap_text p (clean_text text) mw =
        concat (map (\<lambda>l. wrap_paragraph p mw (collapse_spaces (strip l))) (paragraphs text))) \<and>
   concat (map split_ws (wrap_paragraph p mw (collapse_spaces (strip l)))) = split_ws l"
proof (intro conjI impI)
  show "wrap_text p text mw = concat (map (wrap_paragraph p mw) (split_nl text))"
    by (rule wrap_text_blocks)
  show "concat (map split_ws (wrap_paragraph p mw (collapse_spaces (strip l)))) = split_ws l"
    by (simp add: wrap_paragraph_words split_ws_collapse split_ws_strip)
  assume "paragraphs text \<noteq> []"
  then have "cleaned_lines text \<noteq> []"
    by (simp add: cleaned_lines_paragraphs)
  then have "split_nl (clean_text text) = cleaned_lines text"
    by (rule split_nl_clean_text)
  then show "wrap_text p (clean_text text) mw =
        concat (map (\<lambda>l. wrap_paragraph p mw (collapse_spaces (strip l))) (paragraphs text))"
    by (simp add: wrap_text_blocks cleaned_lines_paragraphs comp_def)
qed

lemma two_paragraphs_split: "paragraphs two_paragraphs = [''Milk Eggs  Bread Butter'', '' Tea '']"
  by code_simp

lemma two_paragraphs_blocks:
  "wrap_paragraph fixed_pitch 250 (collapse_spaces (strip ''Milk Eggs  Bread Butter'')) =
     [''Milk Eggs'', ''Bread'', ''Butter'']"
  "wrap_paragraph fixed_pitch 250 (collapse_spaces (strip '' Tea '')) = [''Tea'']"
  by code_simp+

theorem paragraphs_wrapped_apart_witness:
  "paragraphs two_paragraphs \<noteq> [] \<and>
   wrap_text fixed_pitch (clean_text two_paragraphs) 250 =
     [''Milk Eggs'', ''Bread'', ''Butter''] @ [''Tea'']"
  using paragraphs_wrapped_apart [of fixed_pitch two_paragraphs 250]
  by (simp add: two_paragraphs_split two_paragraphs_blocks)

text \<open>
  C10. For every font and width, the words on the visual lines produced for a source line,
  read in order, are exactly the words of that line; \<open>_wrap_text\<close> on a text without a
  line break returns those visual lines, and on any text the words of its output are the
  words of its source lines in order.
\<close>

theorem wrapping_keeps_words:
  "concat (map split_ws (wrap_paragraph p mw l)) = split_ws l \<and>
   (nl \<notin> set l \<longrightarrow> wrap_text p l mw = wrap_paragraph p mw l) \<and>
   concat (map split_ws (wrap_text p text mw)) = concat (map split_ws (split_nl text))"
proof (intro conjI impI)
  show "concat (map split_ws (wrap_paragraph p mw l)) = split_ws l"
    by (rule wrap_paragraph_words)
  show "concat (map split_ws (wrap_text p text mw)) = concat (map split_ws (split_nl text))"
    by (simp only: wrap_text_blocks words_of_blocks)
  assume "nl \<notin> set l"
  then show "wrap_text p l mw = wrap_paragraph p mw l"
    by (simp add: wrap_text_blocks split_nl_line)
qed

lemma long_line_words:
  "split_ws ''Milk Eggs  Bread Butter'' = [''Milk'', ''Eggs'', ''Bread'', ''Butter'']"
  by code_simp

theorem wrapping_keeps_words_witness:
  "nl \<notin> set ''Milk Eggs  Bread Butter'' \<and>
   concat (map split_ws (wrap_text fixed_pitch ''Milk Eggs  Bread Butter'' 250)) =
     [''Milk'', ''Eggs'', ''Bread'', ''Butter'']"
proof -
  have n: "nl \<notin> set ''Milk Eggs  Bread Butter''"
    by (simp add: nl_def)
  show ?thesis
    using wrapping_keeps_words [of fixed_pitch 250 "''Milk Eggs  Bread Butter''"] n
    by (simp add: long_line_words)
qed

end
